theory Spec2Isabelle
  imports Main "HOL-Library.Word"
begin

unbundle bit_operations_syntax

section \<open>server.go: the filter interface, the no-op filter and the server\<close>

subsection \<open>Constants and errors\<close>

text \<open>\<^verbatim>\<open>var serverProtocolVersion uint32 = 2\<close>\<close>

definition serverProtocolVersion :: "32 word" where
  "serverProtocolVersion = 2"

text \<open>
  Go errors are values. \<open>ErrServerClosed\<close> is the package's own error; \<open>ErrNetClosed\<close> is
  what \<open>Accept\<close> of a closed listener returns; \<open>ErrIO n\<close> stands for any other error of
  a listener.
\<close>

datatype error = ErrServerClosed | ErrNetClosed | ErrIO nat

subsection \<open>The Milter interface and NoOpMilter\<close>

text \<open>
  The type \<open>Response\<close> and the values \<open>RespContinue\<close> and \<open>RespAccept\<close> are declared
  outside server.go; only their identity matters here. Modelled from the spec: the verdict
  enumeration of section 3 (Continue, Accept, Reject, Discard, TempFail, ReplyCode,
  SkipRemainingBody).
\<close>

datatype Response =
    RespContinue | RespAccept | RespReject | RespDiscard | RespTempFail
  | RespReplyCode nat string | RespSkip

text \<open>
  Modelled from the spec: the ModificationAction variants of section 3, which a filter
  enqueues through the \<open>*Modifier\<close> handle it is given. The handle is the list of the
  actions enqueued so far; a callback returns the handle it leaves behind.
\<close>

datatype ModificationAction =
    AddHeader string string
  | InsertHeader nat string string
  | ChangeHeader nat string string
  | ChangeSender string string
  | AddRecipient string string
  | DeleteRecipient string
  | ReplaceBody "8 word list"
  | Quarantine string
  | SetSymbolList nat "string list"

type_synonym Modifier = "ModificationAction list"

text \<open>
  A callback returns \<open>(Response, error)\<close>; the model adds the modifier as the callback
  left it. \<open>context.Context\<close> carries no data the no-op filter reads and is left out.
\<close>

type_synonym callback_result = "Response \<times> error option \<times> Modifier"

text \<open>The methods of \<open>NoOpMilter\<close>, in the order of the source.\<close>

definition NoOp_Connect ::
  "string \<Rightarrow> string \<Rightarrow> 16 word \<Rightarrow> 8 word list \<Rightarrow> Modifier \<Rightarrow> callback_result" where
  "NoOp_Connect host family port addr m = (RespContinue, None, m)"

definition NoOp_Helo :: "string \<Rightarrow> Modifier \<Rightarrow> callback_result" where
  "NoOp_Helo name m = (RespContinue, None, m)"

definition NoOp_MailFrom :: "string \<Rightarrow> Modifier \<Rightarrow> callback_result" where
  "NoOp_MailFrom from m = (RespContinue, None, m)"

definition NoOp_RcptTo :: "string \<Rightarrow> Modifier \<Rightarrow> callback_result" where
  "NoOp_RcptTo rcptTo m = (RespContinue, None, m)"

definition NoOp_Header :: "string \<Rightarrow> string \<Rightarrow> Modifier \<Rightarrow> callback_result" where
  "NoOp_Header name val m = (RespContinue, None, m)"

definition NoOp_Headers :: "(string \<times> string list) list \<Rightarrow> Modifier \<Rightarrow> callback_result" where
  "NoOp_Headers h m = (RespContinue, None, m)"

definition NoOp_BodyChunk :: "8 word list \<Rightarrow> Modifier \<Rightarrow> callback_result" where
  "NoOp_BodyChunk chunk m = (RespContinue, None, m)"

definition NoOp_Body :: "Modifier \<Rightarrow> callback_result" where
  "NoOp_Body m = (RespAccept, None, m)"

definition NoOp_Abort :: "Modifier \<Rightarrow> error option \<times> Modifier" where
  "NoOp_Abort m = (None, m)"

subsection \<open>Server, listeners and sessions\<close>

type_synonym conn = nat
type_synonym lid = nat

text \<open>
  A \<open>net.Listener\<close> is an object the server shares with its caller, so listeners live in
  a store indexed by their identity. \<open>lclosed\<close> says whether \<open>Close\<close> has been called on
  it; \<open>close_err\<close> is what its \<open>Close\<close> returns.
\<close>

record listener =
  lclosed :: bool
  close_err :: "error option"

text \<open>
  \<open>NewMilter func() Milter\<close> is a closure: it is a function of its hidden state \<open>'f\<close>,
  returning the filter and the next state. \<open>OptAction\<close> and \<open>OptProtocol\<close> are 32-bit
  masks.
\<close>

record ('m, 'f) Server =
  NewMilter :: "'f \<Rightarrow> 'm \<times> 'f"
  Actions :: "32 word"
  Protocol :: "32 word"
  listeners :: "lid list"
  closed :: bool

text \<open>
  \<open>milterSession\<close> as \<open>Serve\<close> fills it. Its field \<open>server\<close> points back to the one
  server of the world below and is not stored.
\<close>

record 'm milterSession =
  actions :: "32 word"
  protocol :: "32 word"
  conn :: conn
  backend :: 'm

text \<open>
  What the program does to its surroundings, in order: the write of \<open>s.closed\<close>, the calls
  of a listener's \<open>Close\<close>, a connection returned by \<open>Accept\<close>, the calls of the factory
  and the goroutines started.
\<close>

datatype effect =
    SetClosed
  | ListenerClose lid
  | Accepted lid conn
  | NewMilterCall
  | GoSession conn

record ('m, 'f) world =
  srv :: "('m, 'f) Server"
  lstore :: "lid \<Rightarrow> listener"
  fstate :: 'f
  goroutines :: "'m milterSession list"
  history :: "effect list"

text \<open>\<open>ln.Close()\<close>\<close>

definition ln_Close :: "lid \<Rightarrow> ('m, 'f) world \<Rightarrow> error option \<times> ('m, 'f) world" where
  "ln_Close l w =
     (close_err (lstore w l),
      w\<lparr>lstore := (lstore w)(l := (lstore w l)\<lparr>lclosed := True\<rparr>),
        history := history w @ [ListenerClose l]\<rparr>)"

text \<open>The loop of \<open>Close\<close>: \<open>for _, ln := range s.listeners\<close>, returning at the first error.\<close>

fun close_listeners :: "lid list \<Rightarrow> ('m, 'f) world \<Rightarrow> error option \<times> ('m, 'f) world" where
  "close_listeners [] w = (None, w)"
| "close_listeners (l # ls) w =
     (case ln_Close l w of
        (Some e, w') \<Rightarrow> (Some e, w')
      | (None, w') \<Rightarrow> close_listeners ls w')"

definition Close :: "('m, 'f) world \<Rightarrow> error option \<times> ('m, 'f) world" where
  "Close w =
     close_listeners (listeners (srv w))
       (w\<lparr>srv := (srv w)\<lparr>closed := True\<rparr>, history := history w @ [SetClosed]\<rparr>)"

text \<open>
  What happens while \<open>Serve\<close> waits in \<open>ln.Accept()\<close>: a connection arrives, \<open>Accept\<close>
  fails by itself, or another goroutine calls \<open>s.Close()\<close>, which is taken as one step.
  \<open>Serve\<close> runs against a list of such events; when the list is used up and the listener is
  still open, \<open>Accept\<close> never returns and neither does \<open>Serve\<close>.
\<close>

datatype event = Arrives conn | AcceptFails error | CloseCalled

datatype outcome = Blocked | Returned error

text \<open>The composite literal \<open>milterSession{...}\<close> of \<open>Serve\<close>.\<close>

definition session_literal :: "('m, 'f) Server \<Rightarrow> conn \<Rightarrow> 'm \<Rightarrow> 'm milterSession" where
  "session_literal s c m =
     \<lparr>actions = Actions s, protocol = Protocol s, conn = c, backend = m\<rparr>"

text \<open>The body of the loop after a successful \<open>Accept\<close>: build the session, start it.\<close>

definition start_session :: "lid \<Rightarrow> conn \<Rightarrow> ('m, 'f) world \<Rightarrow> ('m, 'f) world" where
  "start_session l c w =
     (case NewMilter (srv w) (fstate w) of
        (m, f') \<Rightarrow>
          w\<lparr>fstate := f',
            goroutines := goroutines w @ [session_literal (srv w) c m],
            history := history w @ [Accepted l c, NewMilterCall, GoSession c]\<rparr>)"

text \<open>The branch \<open>err != nil\<close>, with the deferred \<open>ln.Close()\<close> whose result is dropped.\<close>

definition accept_failed :: "lid \<Rightarrow> error \<Rightarrow> ('m, 'f) world \<Rightarrow> outcome \<times> ('m, 'f) world" where
  "accept_failed l e w =
     (Returned (if closed (srv w) then ErrServerClosed else e), snd (ln_Close l w))"

text \<open>
  The \<open>for\<close> loop. \<open>Accept\<close> of a listener that has been closed returns an error at once;
  otherwise it waits for the next event.
\<close>

fun serve_loop :: "lid \<Rightarrow> event list \<Rightarrow> ('m, 'f) world \<Rightarrow> outcome \<times> ('m, 'f) world" where
  "serve_loop l [] w =
     (if lclosed (lstore w l) then accept_failed l ErrNetClosed w else (Blocked, w))"
| "serve_loop l (ev # evs) w =
     (if lclosed (lstore w l) then accept_failed l ErrNetClosed w
      else case ev of
          Arrives c \<Rightarrow> serve_loop l evs (start_session l c w)
        | AcceptFails e \<Rightarrow> accept_failed l e w
        | CloseCalled \<Rightarrow> serve_loop l evs (snd (Close w)))"

definition Serve :: "lid \<Rightarrow> event list \<Rightarrow> ('m, 'f) world \<Rightarrow> outcome \<times> ('m, 'f) world" where
  "Serve l evs w =
     serve_loop l evs (w\<lparr>srv := (srv w)\<lparr>listeners := listeners (srv w) @ [l]\<rparr>\<rparr>)"

text \<open>The results of \<open>n\<close> calls of a factory in a row, from the state \<open>f\<close>.\<close>

fun factory_results :: "('f \<Rightarrow> 'm \<times> 'f) \<Rightarrow> 'f \<Rightarrow> nat \<Rightarrow> 'm list" where
  "factory_results mk f 0 = []"
| "factory_results mk f (Suc n) = (case mk f of (m, f') \<Rightarrow> m # factory_results mk f' n)"

text \<open>The connections a history says were accepted.\<close>

fun accepted_conns :: "effect list \<Rightarrow> conn list" where
  "accepted_conns [] = []"
| "accepted_conns (Accepted l c # es) = c # accepted_conns es"
| "accepted_conns (e # es) = accepted_conns es"

text \<open>
  What one run of the loop adds to a world \<open>w\<close>, giving \<open>w'\<close>: the history grows by
  some \<open>h\<close>, and the goroutines by one session per connection accepted in \<open>h\<close>, holding
  the results of as many factory calls in a row.
\<close>

definition serve_adds :: "('m, 'f) world \<Rightarrow> ('m, 'f) world \<Rightarrow> bool" where
  "serve_adds w w' \<longleftrightarrow>
     NewMilter (srv w') = NewMilter (srv w) \<and> Actions (srv w') = Actions (srv w) \<and>
     Protocol (srv w') = Protocol (srv w) \<and>
     (\<exists>h. history w' = history w @ h \<and>
        length (filter (\<lambda>e. e = NewMilterCall) h) = length (accepted_conns h) \<and>
        goroutines w' = goroutines w @
          map (\<lambda>p. session_literal (srv w) (fst p) (snd p))
            (zip (accepted_conns h)
               (factory_results (NewMilter (srv w)) (fstate w) (length (accepted_conns h)))))"

section \<open>The protocol engine, from the specification\<close>

text \<open>
  server.go starts \<open>session.HandleMilterCommands()\<close> and nothing else of the engine is in
  the file. The wire codec, the option negotiator and the response encoder are modelled
  here from their contracts in the specification.
\<close>

text \<open>
  Modelled from the spec: the error taxonomy of section 7 (the engine's error values are
  declared outside server.go).
\<close>

datatype engine_error = ProtocolError | NegotiationError | CallbackError | IOError

subsection \<open>Wire codec\<close>

text \<open>
  Modelled from the spec: the Frame of section 3 (its type is declared outside server.go),
  "length: unsigned 32-bit, commandCode: 1 byte, payload: byte sequence".
\<close>

record frame =
  flength :: "32 word"
  commandCode :: "8 word"
  payload :: "8 word list"

text \<open>
  Modelled from the spec: the "4-byte big-endian length" of section 6 (the codec is not in
  server.go). \<open>be32\<close> writes the four bytes, most significant first; \<open>read_be32\<close> reads
  them back.
\<close>

definition be32 :: "32 word \<Rightarrow> 8 word list" where
  "be32 n = [ucast (drop_bit 24 n), ucast (drop_bit 16 n), ucast (drop_bit 8 n), ucast n]"

definition read_be32 :: "8 word \<Rightarrow> 8 word \<Rightarrow> 8 word \<Rightarrow> 8 word \<Rightarrow> 32 word" where
  "read_be32 a b c d =
     push_bit 24 (ucast a) OR push_bit 16 (ucast b) OR push_bit 8 (ucast c) OR ucast d"

text \<open>
  Modelled from the spec: the encoder of the wire codec, which is not in server.go. The
  wire format of section 6 is "4-byte big-endian length + 1-byte command code + payload".
\<close>

definition encode :: "frame \<Rightarrow> 8 word list" where
  "encode f = be32 (flength f) @ commandCode f # payload f"

text \<open>
  Modelled from the spec: \<open>readFrame\<close> of section 4.1, which is not in server.go. It "fails
  with ProtocolError when the declared length exceeds a configured maximum or the stream
  closes mid-frame". \<open>maxlen\<close> is the configured maximum; the buffer is what the stream
  holds, and the bytes after the frame are returned with it. The length counts the command
  code, so a declared length of 0 leaves no command code to read and is malformed.
\<close>

fun decode :: "nat \<Rightarrow> 8 word list \<Rightarrow> engine_error + frame \<times> 8 word list" where
  "decode maxlen (a # b # c # d # rest) =
     (let n = read_be32 a b c d in
      if maxlen < unat n then Inl ProtocolError
      else if length rest < unat n then Inl ProtocolError
      else case take (unat n) rest of
          [] \<Rightarrow> Inl ProtocolError
        | code # body \<Rightarrow>
            Inr (\<lparr>flength = n, commandCode = code, payload = body\<rparr>, drop (unat n) rest))"
| "decode maxlen buf = Inl ProtocolError"

text \<open>
  Modelled from the spec: the valid field values of a frame. "Length is the byte count of
  commandCode+payload" (section 3), and it is within the configured maximum, beyond which
  section 4.1 has \<open>readFrame\<close> fail.
\<close>

definition valid_frame :: "nat \<Rightarrow> frame \<Rightarrow> bool" where
  "valid_frame maxlen f \<longleftrightarrow>
     unat (flength f) = 1 + length (payload f) \<and> unat (flength f) \<le> maxlen"

subsection \<open>Option negotiator\<close>

text \<open>
  Modelled from the spec: what an option-negotiation command carries (section 4.2), "the
  peer's supported protocol version, action bitmask, and protocol bitmask"; the filter's
  side has the same three values. The command's type is declared outside server.go.
\<close>

record optneg =
  oversion :: "32 word"
  oactions :: "32 word"
  oprotocol :: "32 word"

text \<open>
  Modelled from the spec: the negotiator of section 4.2, which is not in server.go. The
  effective masks are "the bitwise AND of the peer's advertised capabilities and the
  filter's configured capabilities", the effective version "the minimum of the two
  advertised versions", and "if the peer's version is below the minimum this implementation
  supports ... the connection is terminated without a reply". The minimum is
  \<open>serverProtocolVersion\<close> of server.go. The second component is what is written to the
  peer: the reply with the effective values, or nothing.
\<close>

definition negotiate :: "optneg \<Rightarrow> optneg \<Rightarrow> (engine_error + optneg) \<times> optneg list" where
  "negotiate peer flt =
     (if oversion peer < serverProtocolVersion then (Inl NegotiationError, [])
      else
        let eff = \<lparr>oversion = min (oversion peer) (oversion flt),
                   oactions = oactions peer AND oactions flt,
                   oprotocol = oprotocol peer AND oprotocol flt\<rparr>
        in (Inr eff, [eff]))"

subsection \<open>Response and modifier encoder\<close>

text \<open>
  Modelled from the spec: the frames the encoder of section 4.4 writes, a ModificationAction
  frame or a Verdict frame (the encoder is not in server.go; the payload layouts are left
  to the protocol version and are not modelled).
\<close>

datatype out_frame = ActionFrame ModificationAction | VerdictFrame Response

fun is_verdict_frame :: "out_frame \<Rightarrow> bool" where
  "is_verdict_frame (VerdictFrame v) = True"
| "is_verdict_frame (ActionFrame a) = False"

text \<open>
  Modelled from the spec: the Modifier capability of section 3, which is declared outside
  server.go. An action's "ownership transfers to the Session's pending-action queue in call
  order": the queue is "a simple ordered append-only buffer".
\<close>

definition enqueue :: "ModificationAction \<Rightarrow> Modifier \<Rightarrow> Modifier" where
  "enqueue a q = q @ [a]"

text \<open>
  Modelled from the spec: \<open>flush\<close> of section 4.4, which is not in server.go. It "writes
  0..N ModificationAction frames followed by exactly 1 Verdict frame, in FIFO order of
  action creation"; the batch does not "outlive the write that flushes" it, so the queue is
  empty afterwards.
\<close>

definition flush :: "Modifier \<Rightarrow> Response \<Rightarrow> out_frame list \<times> Modifier" where
  "flush q v = (map ActionFrame q @ [VerdictFrame v], [])"

section \<open>Concrete values\<close>

subsection \<open>A concrete world\<close>

text \<open>
  Listener 1 fails to close; the others close without error. The factory numbers the
  filters it makes.
\<close>

definition demo_listener :: "lid \<Rightarrow> listener" where
  "demo_listener l = \<lparr>lclosed = False, close_err = (if l = 1 then Some (ErrIO 5) else None)\<rparr>"

definition demo_world :: "lid list \<Rightarrow> (nat, nat) world" where
  "demo_world ls =
     \<lparr>srv = \<lparr>NewMilter = (\<lambda>n. (n, Suc n)), Actions = 0x1F, Protocol = 0,
             listeners = ls, closed = False\<rparr>,
      lstore = demo_listener, fstate = 0, goroutines = [], history = []\<rparr>"

text \<open>The same world with a factory that hands out one and the same filter at every call.\<close>

definition shared_world :: "(nat, nat) world" where
  "shared_world =
     (demo_world [])\<lparr>srv := (srv (demo_world []))\<lparr>NewMilter := (\<lambda>n. (0, Suc n))\<rparr>\<rparr>"

subsection \<open>A concrete frame\<close>

definition demo_frame :: frame where
  "demo_frame = \<lparr>flength = 3, commandCode = 0x48, payload = [0x68, 0x69]\<rparr>"

section \<open>Properties of server.go\<close>

subsection \<open>NoOpMilter\<close>

text \<open>
  C9. Whatever its arguments, \<open>NoOpMilter\<close> returns \<open>RespContinue\<close> and a nil error from
  Connect, Helo, MailFrom, RcptTo, Header, Headers and BodyChunk, \<open>RespAccept\<close> (which is
  not \<open>RespContinue\<close>) and a nil error from Body, and a nil error from Abort; every method
  leaves the modifier as it found it, so no modification action is enqueued.
\<close>

theorem NoOpMilter_responses:
  "NoOp_Connect host family port addr m = (RespContinue, None, m) \<and>
   NoOp_Helo name m = (RespContinue, None, m) \<and>
   NoOp_MailFrom from m = (RespContinue, None, m) \<and>
   NoOp_RcptTo rcptTo m = (RespContinue, None, m) \<and>
   NoOp_Header hname hvalue m = (RespContinue, None, m) \<and>
   NoOp_Headers h m = (RespContinue, None, m) \<and>
   NoOp_BodyChunk chunk m = (RespContinue, None, m) \<and>
   NoOp_Body m = (RespAccept, None, m) \<and>
   RespAccept \<noteq> RespContinue \<and>
   NoOp_Abort m = (None, m)"
  by (simp add: NoOp_Connect_def NoOp_Helo_def NoOp_MailFrom_def NoOp_RcptTo_def
      NoOp_Header_def NoOp_Headers_def NoOp_BodyChunk_def NoOp_Body_def NoOp_Abort_def)

subsection \<open>Closing the listeners\<close>

lemma ln_Close_simps:
  "fst (ln_Close l w) = close_err (lstore w l)"
  "srv (snd (ln_Close l w)) = srv w"
  "fstate (snd (ln_Close l w)) = fstate w"
  "goroutines (snd (ln_Close l w)) = goroutines w"
  "history (snd (ln_Close l w)) = history w @ [ListenerClose l]"
  "lstore (snd (ln_Close l w)) x = (if x = l then (lstore w l)\<lparr>lclosed := True\<rparr> else lstore w x)"
  by (simp_all add: ln_Close_def)

lemma ln_Close_close_err:
  "close_err (lstore (snd (ln_Close l w)) x) = close_err (lstore w x)"
  by (simp add: ln_Close_def)

lemma close_listeners_frame:
  "srv (snd (close_listeners ls w)) = srv w \<and>
   fstate (snd (close_listeners ls w)) = fstate w \<and>
   goroutines (snd (close_listeners ls w)) = goroutines w \<and>
   (\<forall>x. close_err (lstore (snd (close_listeners ls w)) x) = close_err (lstore w x)) \<and>
   (\<forall>x. lclosed (lstore w x) \<longrightarrow> lclosed (lstore (snd (close_listeners ls w)) x))"
proof (induction ls arbitrary: w)
  case Nil
  show ?case by simp
next
  case (Cons l ls)
  show ?case
  proof (cases "close_err (lstore w l)")
    case None
    then have "close_listeners (l # ls) w = close_listeners ls (snd (ln_Close l w))"
      by (simp add: ln_Close_def)
    then show ?thesis using Cons [of "snd (ln_Close l w)"] by (simp add: ln_Close_simps)
  next
    case (Some e)
    then have "close_listeners (l # ls) w = (Some e, snd (ln_Close l w))"
      by (simp add: ln_Close_def)
    then show ?thesis by (simp add: ln_Close_simps)
  qed
qed

lemma close_listeners_history:
  "\<exists>k. history (snd (close_listeners ls w)) = history w @ map ListenerClose (take k ls)"
proof (induction ls arbitrary: w)
  case Nil
  show ?case by simp
next
  case (Cons l ls)
  show ?case
  proof (cases "close_err (lstore w l)")
    case None
    then have eq: "close_listeners (l # ls) w = close_listeners ls (snd (ln_Close l w))"
      by (simp add: ln_Close_def)
    from Cons [of "snd (ln_Close l w)"] obtain k where
      "history (snd (close_listeners ls (snd (ln_Close l w)))) =
         history (snd (ln_Close l w)) @ map ListenerClose (take k ls)" by blast
    then have "history (snd (close_listeners (l # ls) w)) =
         history w @ map ListenerClose (take (Suc k) (l # ls))"
      using eq by (simp add: ln_Close_simps)
    then show ?thesis by blast
  next
    case (Some e)
    then have "close_listeners (l # ls) w = (Some e, snd (ln_Close l w))"
      by (simp add: ln_Close_def)
    then have "history (snd (close_listeners (l # ls) w)) =
         history w @ map ListenerClose (take (Suc 0) (l # ls))"
      by (simp add: ln_Close_simps)
    then show ?thesis by blast
  qed
qed

lemma close_listeners_all_ok:
  "\<forall>x\<in>set ls. close_err (lstore w x) = None \<Longrightarrow>
   fst (close_listeners ls w) = None \<and>
   history (snd (close_listeners ls w)) = history w @ map ListenerClose ls \<and>
   (\<forall>x. lstore (snd (close_listeners ls w)) x =
      (if x \<in> set ls then (lstore w x)\<lparr>lclosed := True\<rparr> else lstore w x))"
proof (induction ls arbitrary: w)
  case Nil
  show ?case by simp
next
  case (Cons l ls)
  then have none: "close_err (lstore w l) = None" by simp
  then have eq: "close_listeners (l # ls) w = close_listeners ls (snd (ln_Close l w))"
    by (simp add: ln_Close_def)
  have "\<forall>x\<in>set ls. close_err (lstore (snd (ln_Close l w)) x) = None"
    using Cons.prems by (simp add: ln_Close_close_err)
  from Cons.IH [OF this] show ?case
    unfolding eq by (auto simp add: ln_Close_simps)
qed

lemma close_listeners_stops:
  "\<forall>x\<in>set pre. close_err (lstore w x) = None \<Longrightarrow> close_err (lstore w l) = Some e \<Longrightarrow>
   fst (close_listeners (pre @ l # post) w) = Some e \<and>
   history (snd (close_listeners (pre @ l # post) w)) =
     history w @ map ListenerClose (pre @ [l]) \<and>
   (\<forall>x. x \<notin> set (pre @ [l]) \<longrightarrow> lstore (snd (close_listeners (pre @ l # post) w)) x = lstore w x)"
proof (induction pre arbitrary: w)
  case Nil
  then have "close_listeners ([] @ l # post) w = (Some e, snd (ln_Close l w))"
    by (simp add: ln_Close_def)
  then show ?case by (simp add: ln_Close_simps)
next
  case (Cons p pre)
  then have none: "close_err (lstore w p) = None" by simp
  then have eq: "close_listeners ((p # pre) @ l # post) w =
      close_listeners (pre @ l # post) (snd (ln_Close p w))"
    by (simp add: ln_Close_def)
  have a: "\<forall>x\<in>set pre. close_err (lstore (snd (ln_Close p w)) x) = None"
    using Cons.prems by (simp add: ln_Close_close_err)
  have b: "close_err (lstore (snd (ln_Close p w)) l) = Some e"
    using Cons.prems by (simp add: ln_Close_close_err)
  from Cons.IH [OF a b] show ?case
    unfolding eq by (auto simp add: ln_Close_simps)
qed

subsection \<open>The accept loop\<close>

lemma accepted_conns_append: "accepted_conns (xs @ ys) = accepted_conns xs @ accepted_conns ys"
  by (induction xs rule: accepted_conns.induct) simp_all

lemma accepted_conns_closes: "accepted_conns (map ListenerClose ls) = []"
  by (induction ls) simp_all

lemma no_factory_call_closes: "filter (\<lambda>e. e = NewMilterCall) (map ListenerClose ls) = []"
  by (induction ls) simp_all

lemma Close_frame:
  "srv (snd (Close w)) = (srv w)\<lparr>closed := True\<rparr>"
  "fstate (snd (Close w)) = fstate w"
  "goroutines (snd (Close w)) = goroutines w"
  using close_listeners_frame [of "listeners (srv w)"
      "w\<lparr>srv := (srv w)\<lparr>closed := True\<rparr>, history := history w @ [SetClosed]\<rparr>"]
  by (simp_all add: Close_def)

lemma Close_lstore:
  "close_err (lstore (snd (Close w)) x) = close_err (lstore w x)"
  "lclosed (lstore w x) \<Longrightarrow> lclosed (lstore (snd (Close w)) x)"
  using close_listeners_frame [of "listeners (srv w)"
      "w\<lparr>srv := (srv w)\<lparr>closed := True\<rparr>, history := history w @ [SetClosed]\<rparr>"]
  by (simp_all add: Close_def)

lemma Close_history:
  "\<exists>k. history (snd (Close w)) =
     history w @ SetClosed # map ListenerClose (take k (listeners (srv w)))"
  using close_listeners_history [of "listeners (srv w)"
      "w\<lparr>srv := (srv w)\<lparr>closed := True\<rparr>, history := history w @ [SetClosed]\<rparr>"]
  by (simp add: Close_def)

lemma start_session_simps:
  "srv (start_session l c w) = srv w"
  "lstore (start_session l c w) = lstore w"
  "fstate (start_session l c w) = snd (NewMilter (srv w) (fstate w))"
  "goroutines (start_session l c w) = goroutines w @
     [session_literal (srv w) c (fst (NewMilter (srv w) (fstate w)))]"
  "history (start_session l c w) = history w @ [Accepted l c, NewMilterCall, GoSession c]"
  by (simp_all add: start_session_def split: prod.splits)

lemma accept_failed_simps:
  "fst (accept_failed l e w) = Returned (if closed (srv w) then ErrServerClosed else e)"
  "srv (snd (accept_failed l e w)) = srv w"
  "fstate (snd (accept_failed l e w)) = fstate w"
  "goroutines (snd (accept_failed l e w)) = goroutines w"
  "history (snd (accept_failed l e w)) = history w @ [ListenerClose l]"
  by (simp_all add: accept_failed_def ln_Close_simps)

lemma serve_adds_failed: "serve_adds w (snd (accept_failed l e w))"
  by (simp add: serve_adds_def accept_failed_simps)

lemma serve_adds_start:
  assumes "serve_adds (start_session l c w) w'"
  shows "serve_adds w w'"
proof -
  let ?w1 = "start_session l c w"
  from assms obtain h where h:
    "history w' = history ?w1 @ h"
    "length (filter (\<lambda>e. e = NewMilterCall) h) = length (accepted_conns h)"
    "goroutines w' = goroutines ?w1 @
          map (\<lambda>p. session_literal (srv ?w1) (fst p) (snd p))
            (zip (accepted_conns h)
               (factory_results (NewMilter (srv ?w1)) (fstate ?w1) (length (accepted_conns h))))"
    and fr: "NewMilter (srv w') = NewMilter (srv ?w1)" "Actions (srv w') = Actions (srv ?w1)"
      "Protocol (srv w') = Protocol (srv ?w1)"
    unfolding serve_adds_def by blast
  let ?h = "[Accepted l c, NewMilterCall, GoSession c] @ h"
  have 1: "history w' = history w @ ?h" using h(1) by (simp add: start_session_simps)
  have 2: "length (filter (\<lambda>e. e = NewMilterCall) ?h) = length (accepted_conns ?h)"
    using h(2) by simp
  have 3: "goroutines w' = goroutines w @
          map (\<lambda>p. session_literal (srv w) (fst p) (snd p))
            (zip (accepted_conns ?h)
               (factory_results (NewMilter (srv w)) (fstate w) (length (accepted_conns ?h))))"
    using h(3) by (simp add: start_session_simps session_literal_def split: prod.splits)
  show ?thesis unfolding serve_adds_def using 1 2 3 fr
    by (intro conjI exI [of _ ?h]) (simp_all add: start_session_simps)
qed

lemma serve_adds_Close:
  assumes "serve_adds (snd (Close w)) w'"
  shows "serve_adds w w'"
proof -
  let ?w1 = "snd (Close w)"
  from assms obtain h where h:
    "history w' = history ?w1 @ h"
    "length (filter (\<lambda>e. e = NewMilterCall) h) = length (accepted_conns h)"
    "goroutines w' = goroutines ?w1 @
          map (\<lambda>p. session_literal (srv ?w1) (fst p) (snd p))
            (zip (accepted_conns h)
               (factory_results (NewMilter (srv ?w1)) (fstate ?w1) (length (accepted_conns h))))"
    and fr: "NewMilter (srv w') = NewMilter (srv ?w1)" "Actions (srv w') = Actions (srv ?w1)"
      "Protocol (srv w') = Protocol (srv ?w1)"
    unfolding serve_adds_def by blast
  from Close_history [of w] obtain k where k:
    "history ?w1 = history w @ SetClosed # map ListenerClose (take k (listeners (srv w)))"
    by blast
  let ?h = "(SetClosed # map ListenerClose (take k (listeners (srv w)))) @ h"
  have 1: "history w' = history w @ ?h" using h(1) k by simp
  have 2: "length (filter (\<lambda>e. e = NewMilterCall) ?h) = length (accepted_conns ?h)"
    using h(2) by (simp add: accepted_conns_append accepted_conns_closes no_factory_call_closes
        del: append_Cons)
  have 3: "accepted_conns ?h = accepted_conns h"
    by (simp add: accepted_conns_append accepted_conns_closes del: append_Cons)
  have 4: "goroutines w' = goroutines w @
          map (\<lambda>p. session_literal (srv w) (fst p) (snd p))
            (zip (accepted_conns ?h)
               (factory_results (NewMilter (srv w)) (fstate w) (length (accepted_conns ?h))))"
    unfolding 3 using h(3) by (simp add: Close_frame session_literal_def)
  show ?thesis unfolding serve_adds_def using 1 2 4 fr
    by (intro conjI exI [of _ ?h]) (simp_all add: Close_frame)
qed

lemma serve_loop_spec: "serve_adds w (snd (serve_loop l evs w))"
proof (induction evs arbitrary: w)
  case Nil
  show ?case by (simp add: serve_adds_failed) (simp add: serve_adds_def)
next
  case (Cons ev evs)
  show ?case
  proof (cases "lclosed (lstore w l)")
    case True
    then show ?thesis by (simp add: serve_adds_failed)
  next
    case False
    then show ?thesis
    proof (cases ev)
      case (Arrives c)
      with False show ?thesis using serve_adds_start [OF Cons [of "start_session l c w"]] by simp
    next
      case (AcceptFails e)
      with False show ?thesis by (simp add: serve_adds_failed)
    next
      case CloseCalled
      with False show ?thesis using serve_adds_Close [OF Cons [of "snd (Close w)"]] by simp
    qed
  qed
qed

lemma length_factory_results: "length (factory_results mk f n) = n"
  by (induction n arbitrary: f) (simp_all split: prod.splits)

lemma close_listeners_reaches:
  "\<forall>x\<in>set pre. close_err (lstore w x) = None \<Longrightarrow>
   lclosed (lstore (snd (close_listeners (pre @ l # post) w)) l)"
proof (induction pre arbitrary: w)
  case Nil
  show ?case
  proof (cases "close_err (lstore w l)")
    case None
    then have "close_listeners ([] @ l # post) w = close_listeners post (snd (ln_Close l w))"
      by (simp add: ln_Close_def)
    moreover have "lclosed (lstore (snd (ln_Close l w)) l)" by (simp add: ln_Close_simps)
    ultimately show ?thesis using close_listeners_frame [of post "snd (ln_Close l w)"] by simp
  next
    case (Some e)
    then have "close_listeners ([] @ l # post) w = (Some e, snd (ln_Close l w))"
      by (simp add: ln_Close_def)
    then show ?thesis by (simp add: ln_Close_simps)
  qed
next
  case (Cons p pre)
  then have "close_err (lstore w p) = None" by simp
  then have eq: "close_listeners ((p # pre) @ l # post) w =
      close_listeners (pre @ l # post) (snd (ln_Close p w))"
    by (simp add: ln_Close_def)
  have "\<forall>x\<in>set pre. close_err (lstore (snd (ln_Close p w)) x) = None"
    using Cons.prems by (simp add: ln_Close_close_err)
  from Cons.IH [OF this] show ?case unfolding eq .
qed

lemma Close_reaches:
  assumes "listeners (srv w) = pre @ [l]" "\<forall>x\<in>set pre. close_err (lstore w x) = None"
  shows "lclosed (lstore (snd (Close w)) l)"
  using close_listeners_reaches [of pre
      "w\<lparr>srv := (srv w)\<lparr>closed := True\<rparr>, history := history w @ [SetClosed]\<rparr>" l "[]"] assms
  by (simp add: Close_def)

lemma serve_loop_listener_closed:
  "lclosed (lstore w l) \<Longrightarrow> serve_loop l evs w = accept_failed l ErrNetClosed w"
  by (cases evs) simp_all

lemma serve_loop_closed_mono:
  "closed (srv w) \<Longrightarrow> closed (srv (snd (serve_loop l evs w)))"
proof (induction evs arbitrary: w)
  case Nil
  then show ?case by (simp add: accept_failed_simps)
next
  case (Cons ev evs)
  show ?case
  proof (cases "lclosed (lstore w l)")
    case True
    then show ?thesis using Cons.prems by (simp add: accept_failed_simps)
  next
    case False
    then show ?thesis
    proof (cases ev)
      case (Arrives c)
      with False show ?thesis
        using Cons.IH [of "start_session l c w"] Cons.prems by (simp add: start_session_simps)
    next
      case (AcceptFails e)
      with False show ?thesis using Cons.prems by (simp add: accept_failed_simps)
    next
      case CloseCalled
      with False show ?thesis
        using Cons.IH [of "snd (Close w)"] by (simp add: Close_frame)
    qed
  qed
qed

lemma serve_loop_returns_closed:
  "fst (serve_loop l evs w) = Returned r \<Longrightarrow> closed (srv (snd (serve_loop l evs w))) \<Longrightarrow>
   r = ErrServerClosed"
proof (induction evs arbitrary: w)
  case Nil
  then show ?case by (simp add: accept_failed_simps split: if_splits)
next
  case (Cons ev evs)
  show ?case
  proof (cases "lclosed (lstore w l)")
    case True
    then show ?thesis using Cons.prems by (simp add: accept_failed_simps split: if_splits)
  next
    case False
    then show ?thesis
    proof (cases ev)
      case (Arrives c)
      with False show ?thesis
        using Cons.IH [of "start_session l c w"] Cons.prems by simp
    next
      case (AcceptFails e)
      with False show ?thesis using Cons.prems by (simp add: accept_failed_simps split: if_splits)
    next
      case CloseCalled
      with False show ?thesis
        using Cons.IH [of "snd (Close w)"] Cons.prems by simp
    qed
  qed
qed

lemma serve_loop_returns_open:
  "fst (serve_loop l evs w) = Returned r \<Longrightarrow> \<not> closed (srv (snd (serve_loop l evs w))) \<Longrightarrow>
   (lclosed (lstore w l) \<and> r = ErrNetClosed) \<or>
   (\<exists>cs e rest. evs = map Arrives cs @ AcceptFails e # rest \<and> r = e)"
proof (induction evs arbitrary: w)
  case Nil
  then show ?case by (simp add: accept_failed_simps split: if_splits)
next
  case (Cons ev evs)
  show ?case
  proof (cases "lclosed (lstore w l)")
    case True
    then show ?thesis using Cons.prems by (simp add: accept_failed_simps split: if_splits)
  next
    case False
    then show ?thesis
    proof (cases ev)
      case (Arrives c)
      with False Cons.prems have
        "fst (serve_loop l evs (start_session l c w)) = Returned r"
        "\<not> closed (srv (snd (serve_loop l evs (start_session l c w))))" by simp_all
      from Cons.IH [OF this] False obtain cs e rest where
        "evs = map Arrives cs @ AcceptFails e # rest" "r = e"
        by (auto simp add: start_session_simps)
      then have "ev # evs = map Arrives (c # cs) @ AcceptFails e # rest \<and> r = e"
        using Arrives by simp
      then show ?thesis by blast
    next
      case (AcceptFails e)
      with False Cons.prems have "r = e"
        by (simp add: accept_failed_simps split: if_splits)
      then have "ev # evs = map Arrives [] @ AcceptFails e # evs \<and> r = e"
        using AcceptFails by simp
      then show ?thesis by blast
    next
      case CloseCalled
      with False Cons.prems have
        "\<not> closed (srv (snd (serve_loop l evs (snd (Close w)))))" by simp
      moreover have "closed (srv (snd (serve_loop l evs (snd (Close w)))))"
        by (rule serve_loop_closed_mono) (simp add: Close_frame)
      ultimately show ?thesis by simp
    qed
  qed
qed

lemma serve_loop_stops:
  assumes "\<not> lclosed (lstore w l)" "listeners (srv w) = pre @ [l]"
    "\<forall>x\<in>set pre. close_err (lstore w x) = None"
  shows "fst (serve_loop l (map Arrives cs @ CloseCalled # rest) w) = Returned ErrServerClosed \<and>
     map conn (goroutines (snd (serve_loop l (map Arrives cs @ CloseCalled # rest) w))) =
       map conn (goroutines w) @ cs"
  using assms
proof (induction cs arbitrary: w)
  case Nil
  let ?w1 = "snd (Close w)"
  have "lclosed (lstore ?w1 l)" using Nil by (intro Close_reaches)
  then have "serve_loop l rest ?w1 = accept_failed l ErrNetClosed ?w1"
    by (rule serve_loop_listener_closed)
  then show ?case using Nil by (simp add: accept_failed_simps Close_frame)
next
  case (Cons c cs)
  let ?w1 = "start_session l c w"
  have "\<not> lclosed (lstore ?w1 l)" "listeners (srv ?w1) = pre @ [l]"
    "\<forall>x\<in>set pre. close_err (lstore ?w1 x) = None"
    using Cons.prems by (simp_all add: start_session_simps)
  from Cons.IH [OF this] show ?case using Cons.prems
    by (simp add: start_session_simps session_literal_def)
qed

lemma serve_loop_until_failure:
  assumes "\<not> lclosed (lstore w l)"
  shows "fst (serve_loop l (map Arrives cs @ AcceptFails e # rest) w) =
       Returned (if closed (srv w) then ErrServerClosed else e) \<and>
     map conn (goroutines (snd (serve_loop l (map Arrives cs @ AcceptFails e # rest) w))) =
       map conn (goroutines w) @ cs"
  using assms
proof (induction cs arbitrary: w)
  case Nil
  then show ?case by (simp add: accept_failed_simps)
next
  case (Cons c cs)
  let ?w1 = "start_session l c w"
  have "\<not> lclosed (lstore ?w1 l)" using Cons.prems by (simp add: start_session_simps)
  from Cons.IH [OF this] show ?case using Cons.prems
    by (simp add: start_session_simps session_literal_def)
qed

lemma serve_loop_no_Close:
  "CloseCalled \<notin> set evs \<Longrightarrow> closed (srv (snd (serve_loop l evs w))) = closed (srv w)"
proof (induction evs arbitrary: w)
  case Nil
  then show ?case by (simp add: accept_failed_simps)
next
  case (Cons ev evs)
  show ?case
  proof (cases "lclosed (lstore w l)")
    case True
    then show ?thesis by (simp add: accept_failed_simps)
  next
    case False
    then show ?thesis
    proof (cases ev)
      case (Arrives c)
      with False show ?thesis
        using Cons.IH [of "start_session l c w"] Cons.prems by (simp add: start_session_simps)
    next
      case (AcceptFails e)
      with False show ?thesis by (simp add: accept_failed_simps)
    next
      case CloseCalled
      with Cons.prems show ?thesis by simp
    qed
  qed
qed

subsection \<open>Sessions started by Serve\<close>

text \<open>
  C7, the claim as stated. \<open>Serve\<close> takes whatever \<open>NewMilter\<close> returns. With a factory
  that returns the same filter at every call, the sessions of the connections 7 and 8 hold
  the same instance, although the factory was called once for each.
\<close>

theorem Serve_shared_filter_counterexample:
  "map conn (goroutines (snd (Serve 0 [Arrives 7, Arrives 8, AcceptFails (ErrIO 1)]
     shared_world))) = [7, 8] \<and>
   map backend (goroutines (snd (Serve 0 [Arrives 7, Arrives 8, AcceptFails (ErrIO 1)]
     shared_world))) = [0, 0] \<and>
   history (snd (Serve 0 [Arrives 7, Arrives 8, AcceptFails (ErrIO 1)] shared_world)) =
     [Accepted 0 7, NewMilterCall, GoSession 7, Accepted 0 8, NewMilterCall, GoSession 8,
      ListenerClose 0]"
  by (simp add: Serve_def shared_world_def demo_world_def demo_listener_def start_session_def
      session_literal_def accept_failed_def ln_Close_def)

text \<open>
  C7, amended. For every connection \<open>Serve\<close> accepts, the factory \<open>NewMilter\<close> is called
  once, for that connection alone: the sessions \<open>Serve\<close> starts are one per accepted
  connection, in order, the k-th of them holds the result of the k-th factory call, and the
  factory is called as often as connections are accepted. Every session carries the
  server's \<open>Actions\<close> and \<open>Protocol\<close>. Whether two sessions hold the same instance is
  decided by what the factory returns at their two calls.
\<close>

theorem Serve_one_factory_call_per_connection:
  "let w' = snd (Serve l evs w);
       new = drop (length (goroutines w)) (goroutines w');
       cs = accepted_conns (drop (length (history w)) (history w'));
       made = factory_results (NewMilter (srv w)) (fstate w) (length cs)
   in goroutines w' = goroutines w @ new \<and>
      map conn new = cs \<and>
      map backend new = made \<and>
      length (filter (\<lambda>e. e = NewMilterCall) (drop (length (history w)) (history w'))) = length cs \<and>
      map actions new = replicate (length cs) (Actions (srv w)) \<and>
      map protocol new = replicate (length cs) (Protocol (srv w))"
proof -
  let ?w0 = "w\<lparr>srv := (srv w)\<lparr>listeners := listeners (srv w) @ [l]\<rparr>\<rparr>"
  let ?w' = "snd (Serve l evs w)"
  have "serve_adds ?w0 ?w'" unfolding Serve_def by (rule serve_loop_spec)
  then obtain h where h: "history ?w' = history w @ h"
    "length (filter (\<lambda>e. e = NewMilterCall) h) = length (accepted_conns h)"
    "goroutines ?w' = goroutines w @
          map (\<lambda>p. session_literal (srv w) (fst p) (snd p))
            (zip (accepted_conns h)
               (factory_results (NewMilter (srv w)) (fstate w) (length (accepted_conns h))))"
    unfolding serve_adds_def by (auto simp add: session_literal_def)
  let ?cs = "accepted_conns h"
  let ?made = "factory_results (NewMilter (srv w)) (fstate w) (length ?cs)"
  let ?new = "map (\<lambda>p. session_literal (srv w) (fst p) (snd p)) (zip ?cs ?made)"
  have len: "length ?made = length ?cs" by (rule length_factory_results)
  have dh: "drop (length (history w)) (history ?w') = h" using h(1) by simp
  have dn: "drop (length (goroutines w)) (goroutines ?w') = ?new" using h(3) by simp
  have c: "map conn ?new = ?cs" using len by (simp add: session_literal_def comp_def)
  have b: "map backend ?new = ?made" using len by (simp add: session_literal_def comp_def)
  have a: "map actions ?new = replicate (length ?cs) (Actions (srv w))"
    using len by (simp add: session_literal_def comp_def map_replicate_const)
  have p: "map protocol ?new = replicate (length ?cs) (Protocol (srv w))"
    using len by (simp add: session_literal_def comp_def map_replicate_const)
  show ?thesis unfolding Let_def dh dn using h(2) h(3) c b a p by simp
qed

theorem Serve_one_factory_call_per_connection_witness:
  "factory_results (\<lambda>n. (n, Suc n)) (0::nat) 2 = [0, 1] \<and>
   map backend (goroutines (snd (Serve 0 [Arrives 7, Arrives 8, AcceptFails (ErrIO 1)]
     (demo_world [])))) = [0, 1] \<and>
   map conn (goroutines (snd (Serve 0 [Arrives 7, Arrives 8, AcceptFails (ErrIO 1)]
     (demo_world [])))) = [7, 8] \<and>
   map actions (goroutines (snd (Serve 0 [Arrives 7, Arrives 8, AcceptFails (ErrIO 1)]
     (demo_world [])))) = [0x1F, 0x1F] \<and>
   map protocol (goroutines (snd (Serve 0 [Arrives 7, Arrives 8, AcceptFails (ErrIO 1)]
     (demo_world [])))) = [0, 0]"
  using Serve_one_factory_call_per_connection
    [of 0 "[Arrives 7, Arrives 8, AcceptFails (ErrIO 1)]" "demo_world []"]
  by (simp add: Let_def Serve_def demo_world_def demo_listener_def start_session_def session_literal_def
      accept_failed_def ln_Close_def numeral_2_eq_2)

subsection \<open>What Serve returns\<close>

text \<open>
  C8, the claim as stated. \<open>Close\<close> is called on a server with no listener yet; \<open>Serve\<close>,
  called afterwards on the open listener 0, still accepts the connection 7 and starts its
  session, and returns \<open>ErrServerClosed\<close> only when \<open>Accept\<close> fails: \<open>Serve\<close> never reads
  \<open>s.closed\<close> before an \<open>Accept\<close> has failed.
\<close>

theorem Serve_after_Close_counterexample:
  "closed (srv (snd (Close (demo_world [])))) \<and>
   fst (Serve 0 [Arrives 7, AcceptFails (ErrIO 1)] (snd (Close (demo_world [])))) = Returned ErrServerClosed \<and>
   history (snd (Serve 0 [Arrives 7, AcceptFails (ErrIO 1)] (snd (Close (demo_world []))))) =
     [SetClosed, Accepted 0 7, NewMilterCall, GoSession 7, ListenerClose 0] \<and>
   map conn (goroutines (snd (Serve 0 [Arrives 7, AcceptFails (ErrIO 1)] (snd (Close (demo_world [])))))) = [7]"
  by (simp add: Close_def Serve_def demo_world_def demo_listener_def start_session_def session_literal_def
      accept_failed_def ln_Close_def)

text \<open>
  C8, amended. When \<open>Serve\<close> returns (which it does only after \<open>Accept\<close> has failed), it
  returns \<open>ErrServerClosed\<close> if the flag \<open>s.closed\<close> is set, that is if \<open>Close\<close> has been
  called before, whatever the accept error was. If \<open>Close\<close> has not been called (the flag is
  clear at the start and no \<open>Close\<close> happens during the run), it returns the accept error
  itself: the error of the first failing \<open>Accept\<close>, or the error of a listener somebody else
  had closed. If \<open>Close\<close> is called while \<open>Serve\<close> waits in \<open>Accept\<close> on an open listener,
  and every listener registered before closes without error, then \<open>Serve\<close> returns
  \<open>ErrServerClosed\<close> and the connections it has accepted are those that arrived before
  \<open>Close\<close>: none that arrives later is accepted. \<open>Serve\<close> itself reads the flag only when
  \<open>Accept\<close> has failed: on an open listener and with no \<open>Close\<close> during the run, it accepts
  every connection that arrives before the first failing \<open>Accept\<close>, also when the flag was
  set before \<open>Serve\<close> was called.
\<close>

theorem Serve_error_on_return:
  "(fst (Serve l evs w) = Returned r \<and> closed (srv (snd (Serve l evs w))) \<longrightarrow>
      r = ErrServerClosed) \<and>
   (fst (Serve l evs w) = Returned r \<and> \<not> closed (srv w) \<and> CloseCalled \<notin> set evs \<longrightarrow>
      (lclosed (lstore w l) \<and> r = ErrNetClosed) \<or>
      (\<exists>cs e rest. evs = map Arrives cs @ AcceptFails e # rest \<and> r = e)) \<and>
   (evs = map Arrives cs' @ CloseCalled # rest' \<and> \<not> lclosed (lstore w l) \<and>
    (\<forall>x\<in>set (listeners (srv w)). close_err (lstore w x) = None) \<longrightarrow>
      fst (Serve l evs w) = Returned ErrServerClosed \<and>
      map conn (drop (length (goroutines w)) (goroutines (snd (Serve l evs w)))) = cs') \<and>
   (evs = map Arrives cs' @ AcceptFails e' # rest' \<and> \<not> lclosed (lstore w l) \<longrightarrow>
      fst (Serve l evs w) = Returned (if closed (srv w) then ErrServerClosed else e') \<and>
      map conn (drop (length (goroutines w)) (goroutines (snd (Serve l evs w)))) = cs')"
proof -
  have p1: "fst (Serve l evs w) = Returned r \<and> closed (srv (snd (Serve l evs w))) \<longrightarrow>
      r = ErrServerClosed"
    unfolding Serve_def using serve_loop_returns_closed by blast
  have p2: "fst (Serve l evs w) = Returned r \<and> \<not> closed (srv w) \<and> CloseCalled \<notin> set evs \<longrightarrow>
      (lclosed (lstore w l) \<and> r = ErrNetClosed) \<or>
      (\<exists>cs e rest. evs = map Arrives cs @ AcceptFails e # rest \<and> r = e)"
  proof
  let ?w0 = "w\<lparr>srv := (srv w)\<lparr>listeners := listeners (srv w) @ [l]\<rparr>\<rparr>"
  assume a: "fst (Serve l evs w) = Returned r \<and> \<not> closed (srv w) \<and> CloseCalled \<notin> set evs"
  then have "closed (srv (snd (serve_loop l evs ?w0))) = closed (srv ?w0)"
    by (intro serve_loop_no_Close) simp
  with a have "\<not> closed (srv (snd (serve_loop l evs ?w0)))" by simp
  moreover from a have "fst (serve_loop l evs ?w0) = Returned r" by (simp add: Serve_def)
  ultimately have "(lclosed (lstore ?w0 l) \<and> r = ErrNetClosed) \<or>
      (\<exists>cs e rest. evs = map Arrives cs @ AcceptFails e # rest \<and> r = e)"
    by (rule serve_loop_returns_open [rotated])
  then show "(lclosed (lstore w l) \<and> r = ErrNetClosed) \<or>
      (\<exists>cs e rest. evs = map Arrives cs @ AcceptFails e # rest \<and> r = e)" by simp
  qed
  have p3: "evs = map Arrives cs' @ CloseCalled # rest' \<and> \<not> lclosed (lstore w l) \<and>
    (\<forall>x\<in>set (listeners (srv w)). close_err (lstore w x) = None) \<longrightarrow>
      fst (Serve l evs w) = Returned ErrServerClosed \<and>
      map conn (drop (length (goroutines w)) (goroutines (snd (Serve l evs w)))) = cs'"
  proof
  let ?w0 = "w\<lparr>srv := (srv w)\<lparr>listeners := listeners (srv w) @ [l]\<rparr>\<rparr>"
  assume a: "evs = map Arrives cs' @ CloseCalled # rest' \<and> \<not> lclosed (lstore w l) \<and>
    (\<forall>x\<in>set (listeners (srv w)). close_err (lstore w x) = None)"
  then have "\<not> lclosed (lstore ?w0 l)" "listeners (srv ?w0) = listeners (srv w) @ [l]"
    "\<forall>x\<in>set (listeners (srv w)). close_err (lstore ?w0 x) = None" by simp_all
  from serve_loop_stops [OF this, of cs' rest'] a
  have r: "fst (Serve l evs w) = Returned ErrServerClosed"
    and g: "map conn (goroutines (snd (Serve l evs w))) = map conn (goroutines w) @ cs'"
    by (simp_all add: Serve_def)
  have "map conn (drop (length (goroutines w)) (goroutines (snd (Serve l evs w)))) =
      drop (length (map conn (goroutines w))) (map conn (goroutines (snd (Serve l evs w))))"
    by (simp add: drop_map)
  also have "\<dots> = cs'" unfolding g by simp
  finally show "fst (Serve l evs w) = Returned ErrServerClosed \<and>
      map conn (drop (length (goroutines w)) (goroutines (snd (Serve l evs w)))) = cs'"
    using r by simp
  qed
  have p4: "evs = map Arrives cs' @ AcceptFails e' # rest' \<and> \<not> lclosed (lstore w l) \<longrightarrow>
      fst (Serve l evs w) = Returned (if closed (srv w) then ErrServerClosed else e') \<and>
      map conn (drop (length (goroutines w)) (goroutines (snd (Serve l evs w)))) = cs'"
  proof
    let ?w0 = "w\<lparr>srv := (srv w)\<lparr>listeners := listeners (srv w) @ [l]\<rparr>\<rparr>"
    assume a: "evs = map Arrives cs' @ AcceptFails e' # rest' \<and> \<not> lclosed (lstore w l)"
    then have "\<not> lclosed (lstore ?w0 l)" by simp
    from serve_loop_until_failure [OF this, of cs' e' rest'] a
    have r: "fst (Serve l evs w) = Returned (if closed (srv w) then ErrServerClosed else e')"
      and g: "map conn (goroutines (snd (Serve l evs w))) = map conn (goroutines w) @ cs'"
      by (simp_all add: Serve_def)
    have "map conn (drop (length (goroutines w)) (goroutines (snd (Serve l evs w)))) =
        drop (length (map conn (goroutines w))) (map conn (goroutines (snd (Serve l evs w))))"
      by (simp add: drop_map)
    also have "\<dots> = cs'" unfolding g by simp
    finally show "fst (Serve l evs w) = Returned (if closed (srv w) then ErrServerClosed else e') \<and>
        map conn (drop (length (goroutines w)) (goroutines (snd (Serve l evs w)))) = cs'"
      using r by simp
  qed
  from p1 p2 p3 p4 show ?thesis by (intro conjI)
qed

theorem Serve_error_on_return_witness:
  "fst (Serve 0 [Arrives 7, CloseCalled, Arrives 8] (demo_world [])) = Returned ErrServerClosed \<and>
   map conn (goroutines (snd (Serve 0 [Arrives 7, CloseCalled, Arrives 8] (demo_world [])))) = [7] \<and>
   closed (srv (snd (Serve 0 [Arrives 7, CloseCalled, Arrives 8] (demo_world [])))) \<and>
   \<not> closed (srv (demo_world [])) \<and>
   fst (Serve 0 [Arrives 7, AcceptFails (ErrIO 1)] (demo_world [])) = Returned (ErrIO 1)"
  using Serve_error_on_return
      [of 0 "[Arrives 7, CloseCalled, Arrives 8]" "demo_world []" ErrServerClosed "[7]" "[Arrives 8]"]
    Serve_error_on_return
      [of 0 "[Arrives 7, AcceptFails (ErrIO 1)]" "demo_world []" "ErrIO 1" "[7]" "[]" "ErrIO 1"]
  by (simp add: Serve_def Close_def demo_world_def demo_listener_def start_session_def session_literal_def
      accept_failed_def ln_Close_def)

text \<open>
  The other way a running \<open>Serve\<close> outlives \<open>Close\<close>: listener 1, registered before,
  fails to close, \<open>Close\<close> returns at once and listener 2 stays open. \<open>Serve\<close> on listener
  2 accepts the connection 8 that arrives after \<open>Close\<close>.
\<close>

lemma Serve_survives_failed_Close:
  "fst (Serve 2 [Arrives 7, CloseCalled, Arrives 8, AcceptFails (ErrIO 1)] (demo_world [1])) =
     Returned ErrServerClosed \<and>
   history (snd (Serve 2 [Arrives 7, CloseCalled, Arrives 8, AcceptFails (ErrIO 1)]
     (demo_world [1]))) =
     [Accepted 2 7, NewMilterCall, GoSession 7, SetClosed, ListenerClose 1,
      Accepted 2 8, NewMilterCall, GoSession 8, ListenerClose 2]"
  by (simp add: Serve_def Close_def demo_world_def demo_listener_def start_session_def
      session_literal_def accept_failed_def ln_Close_def)

subsection \<open>What Close does\<close>

text \<open>
  C10. \<open>Close\<close> writes \<open>s.closed\<close> first and only then calls \<open>Close\<close> on listeners, on a
  prefix of \<open>s.listeners\<close> in order; the flag is set whatever happens next. If a listener's
  \<open>Close\<close> returns an error while every listener before it closed without one, \<open>Close\<close>
  returns that error at once: the listeners it has called are those up to the failing one,
  and every other listener is left as it was.
\<close>

theorem Close_sets_flag_first_and_stops_at_error:
  "(\<exists>k. history (snd (Close w)) =
      history w @ SetClosed # map ListenerClose (take k (listeners (srv w)))) \<and>
   closed (srv (snd (Close w))) \<and>
   (listeners (srv w) = pre @ l # post \<and> (\<forall>x\<in>set pre. close_err (lstore w x) = None) \<and>
    close_err (lstore w l) = Some e \<longrightarrow>
      fst (Close w) = Some e \<and>
      history (snd (Close w)) = history w @ SetClosed # map ListenerClose (pre @ [l]) \<and>
      (\<forall>x. x \<notin> set (pre @ [l]) \<longrightarrow> lstore (snd (Close w)) x = lstore w x))"
proof -
  have p1: "\<exists>k. history (snd (Close w)) =
      history w @ SetClosed # map ListenerClose (take k (listeners (srv w)))"
    by (rule Close_history)
  have p2: "closed (srv (snd (Close w)))" by (simp add: Close_frame)
  have p3: "listeners (srv w) = pre @ l # post \<and> (\<forall>x\<in>set pre. close_err (lstore w x) = None) \<and>
    close_err (lstore w l) = Some e \<longrightarrow>
      fst (Close w) = Some e \<and>
      history (snd (Close w)) = history w @ SetClosed # map ListenerClose (pre @ [l]) \<and>
      (\<forall>x. x \<notin> set (pre @ [l]) \<longrightarrow> lstore (snd (Close w)) x = lstore w x)"
  proof
  let ?w1 = "w\<lparr>srv := (srv w)\<lparr>closed := True\<rparr>, history := history w @ [SetClosed]\<rparr>"
  assume a: "listeners (srv w) = pre @ l # post \<and>
    (\<forall>x\<in>set pre. close_err (lstore w x) = None) \<and> close_err (lstore w l) = Some e"
  then have "\<forall>x\<in>set pre. close_err (lstore ?w1 x) = None" "close_err (lstore ?w1 l) = Some e"
    by simp_all
  from close_listeners_stops [OF this, of post] a
  show "fst (Close w) = Some e \<and>
      history (snd (Close w)) = history w @ SetClosed # map ListenerClose (pre @ [l]) \<and>
      (\<forall>x. x \<notin> set (pre @ [l]) \<longrightarrow> lstore (snd (Close w)) x = lstore w x)"
    by (simp add: Close_def)
  qed
  from p1 p2 p3 show ?thesis by (intro conjI)
qed

theorem Close_sets_flag_first_and_stops_at_error_witness:
  "listeners (srv (demo_world [0, 1, 2])) = [0] @ 1 # [2] \<and>
   close_err (lstore (demo_world [0, 1, 2]) 0) = None \<and>
   close_err (lstore (demo_world [0, 1, 2]) 1) = Some (ErrIO 5) \<and>
   fst (Close (demo_world [0, 1, 2])) = Some (ErrIO 5) \<and>
   closed (srv (snd (Close (demo_world [0, 1, 2])))) \<and>
   history (snd (Close (demo_world [0, 1, 2]))) = [SetClosed, ListenerClose 0, ListenerClose 1] \<and>
   \<not> lclosed (lstore (snd (Close (demo_world [0, 1, 2]))) 2)"
  using Close_sets_flag_first_and_stops_at_error [of "demo_world [0, 1, 2]" "[0]" 1 "[2]" "ErrIO 5"]
  by (simp add: demo_world_def demo_listener_def)

section \<open>Properties of the engine as specified\<close>

subsection \<open>Negotiation\<close>

text \<open>
  C1. For every peer triple and filter triple, negotiation with a peer whose version is not
  below \<open>serverProtocolVersion\<close> yields exactly the bitwise AND of the two action masks and
  of the two protocol masks, and the minimum of the two versions. With a peer version
  below \<open>serverProtocolVersion\<close>, which is 2, negotiation fails and nothing is written.
\<close>

theorem negotiate_intersection:
  "(\<not> oversion peer < serverProtocolVersion \<longrightarrow>
      negotiate peer flt =
        (Inr \<lparr>oversion = min (oversion peer) (oversion flt),
              oactions = oactions peer AND oactions flt,
              oprotocol = oprotocol peer AND oprotocol flt\<rparr>,
         [\<lparr>oversion = min (oversion peer) (oversion flt),
              oactions = oactions peer AND oactions flt,
              oprotocol = oprotocol peer AND oprotocol flt\<rparr>])) \<and>
   (oversion peer < serverProtocolVersion \<longrightarrow> negotiate peer flt = (Inl NegotiationError, [])) \<and>
   (oversion peer < serverProtocolVersion \<longleftrightarrow> unat (oversion peer) < 2)"
  by (simp add: negotiate_def Let_def serverProtocolVersion_def word_less_nat_alt)

theorem negotiate_intersection_witness:
  "\<not> (6 :: 32 word) < serverProtocolVersion \<and>
   negotiate \<lparr>oversion = 6, oactions = 0x1F, oprotocol = 0x0C\<rparr>
             \<lparr>oversion = 2, oactions = 0x13, oprotocol = 0x1C\<rparr> =
     (Inr \<lparr>oversion = 2, oactions = 0x13, oprotocol = 0x0C\<rparr>,
      [\<lparr>oversion = 2, oactions = 0x13, oprotocol = 0x0C\<rparr>]) \<and>
   (1 :: 32 word) < serverProtocolVersion \<and>
   negotiate \<lparr>oversion = 1, oactions = 0x1F, oprotocol = 0\<rparr>
             \<lparr>oversion = 2, oactions = 0x13, oprotocol = 0x1C\<rparr> = (Inl NegotiationError, [])"
  using negotiate_intersection [of "\<lparr>oversion = 6, oactions = 0x1F, oprotocol = 0x0C\<rparr>"
      "\<lparr>oversion = 2, oactions = 0x13, oprotocol = 0x1C\<rparr>"]
    negotiate_intersection [of "\<lparr>oversion = 1, oactions = 0x1F, oprotocol = 0\<rparr>"
      "\<lparr>oversion = 2, oactions = 0x13, oprotocol = 0x1C\<rparr>"]
  by (simp add: serverProtocolVersion_def)

subsection \<open>Flushing the pending actions\<close>

lemma enqueue_all: "foldl (\<lambda>q a. enqueue a q) q acts = q @ acts"
  by (induction acts arbitrary: q) (simp_all add: enqueue_def)

text \<open>
  C4. When the filter has enqueued the actions \<open>acts\<close>, in this order, on an empty queue,
  \<open>flush\<close> writes one ModificationAction frame per action, in the same order, and then one
  Verdict frame: \<open>length acts + 1\<close> frames, of which the last and only the last is a Verdict
  frame. The queue is empty afterwards.
\<close>

theorem flush_fifo_then_verdict:
  "fst (flush (foldl (\<lambda>q a. enqueue a q) [] acts) v) = map ActionFrame acts @ [VerdictFrame v] \<and>
   length (fst (flush (foldl (\<lambda>q a. enqueue a q) [] acts) v)) = length acts + 1 \<and>
   filter is_verdict_frame (fst (flush (foldl (\<lambda>q a. enqueue a q) [] acts) v)) = [VerdictFrame v] \<and>
   snd (flush (foldl (\<lambda>q a. enqueue a q) [] acts) v) = []"
proof -
  have "filter is_verdict_frame (map ActionFrame acts) = []"
    by (induction acts) simp_all
  then show ?thesis by (simp add: enqueue_all flush_def)
qed

text \<open>
  The first end-to-end scenario of the specification: the filter enqueues
  \<open>AddHeader("X-Filtered", "yes")\<close> and returns Accept; one AddHeader frame is written,
  then one Accept frame.
\<close>

lemma flush_scenario_1:
  "flush (enqueue (AddHeader ''X-Filtered'' ''yes'') []) RespAccept =
     ([ActionFrame (AddHeader ''X-Filtered'' ''yes''), VerdictFrame RespAccept], [])"
  by (simp add: flush_def enqueue_def)

subsection \<open>Frames on the wire\<close>

lemma read_be32_be32: "read_be32 (ucast (drop_bit 24 n)) (ucast (drop_bit 16 n)) (ucast (drop_bit 8 n)) (ucast n) = n"
  unfolding read_be32_def
proof (rule bit_word_eqI)
  fix k
  assume "k < LENGTH(32)"
  then show "bit (push_bit 24 (ucast (ucast (drop_bit 24 n) :: 8 word)) OR
          push_bit 16 (ucast (ucast (drop_bit 16 n) :: 8 word)) OR
          push_bit 8 (ucast (ucast (drop_bit 8 n) :: 8 word)) OR ucast (ucast n :: 8 word) :: 32 word) k = bit n k"
    by (cases "k < 8"; cases "k < 16"; cases "k < 24") (auto simp add: bit_simps)
qed

lemma be32_example: "be32 0x01020304 = [1, 2, 3, 4]"
  by (simp add: be32_def drop_bit_eq_div)

lemma decode_encode: 
  assumes "valid_frame maxlen f"
  shows "decode maxlen (encode f @ rest) = Inr (f, rest)"
  using assms
  by (simp add: encode_def be32_def read_be32_be32 valid_frame_def Let_def)


lemma encode_length: "length (encode f) = 5 + length (payload f)"
  by (simp add: encode_def be32_def)

lemma decode_short: "length buf < 4 \<Longrightarrow> decode maxlen buf = Inl ProtocolError"
  by (cases "(maxlen, buf)" rule: decode.cases) simp_all

lemma decode_truncated:
  "length rest < unat (read_be32 a b c d) \<Longrightarrow>
   decode maxlen (a # b # c # d # rest) = Inl ProtocolError"
  by (simp add: Let_def)

lemma decode_over_length:
  "maxlen < unat (read_be32 a b c d) \<Longrightarrow>
   decode maxlen (a # b # c # d # rest) = Inl ProtocolError"
  by (simp add: Let_def)

lemma decode_prefix:
  assumes "valid_frame maxlen f" "n < length (encode f)"
  shows "decode maxlen (take n (encode f)) = Inl ProtocolError"
proof (cases "n < 4")
  case True
  then have "length (take n (encode f)) < 4" by simp
  then show ?thesis by (rule decode_short)
next
  case False
  define m where "m = n - 4"
  with False have n: "n = Suc (Suc (Suc (Suc m)))" by simp
  let ?rest = "take m (commandCode f # payload f)"
  have shape: "take n (encode f) =
      ucast (drop_bit 24 (flength f)) # ucast (drop_bit 16 (flength f)) #
      ucast (drop_bit 8 (flength f)) # ucast (flength f) # ?rest"
    unfolding n by (simp add: encode_def be32_def)
  have "m < 1 + length (payload f)" using assms(2) n by (simp add: encode_length)
  then have "length ?rest < unat (flength f)" using assms(1) by (simp add: valid_frame_def)
  then have "length ?rest < unat (read_be32 (ucast (drop_bit 24 (flength f)))
      (ucast (drop_bit 16 (flength f))) (ucast (drop_bit 8 (flength f))) (ucast (flength f)))"
    by (simp only: read_be32_be32)
  then show ?thesis unfolding shape by (rule decode_truncated)
qed

text \<open>
  C6. A frame with valid field values (its length is the byte count of command code and
  payload, and within the configured maximum) is decoded from its encoding, whatever
  follows it in the stream. Decoding fails with \<open>ProtocolError\<close> on every proper prefix of
  the encoding of such a frame, on every buffer shorter than the length prefix or shorter
  than the length it declares, and on every buffer whose declared length exceeds the
  configured maximum.
\<close>

theorem decode_encode_roundtrip:
  "(valid_frame maxlen f \<longrightarrow> decode maxlen (encode f @ after) = Inr (f, after)) \<and>
   (valid_frame maxlen f \<and> n < length (encode f) \<longrightarrow>
      decode maxlen (take n (encode f)) = Inl ProtocolError) \<and>
   (length buf < 4 \<longrightarrow> decode maxlen buf = Inl ProtocolError) \<and>
   (length rest < unat (read_be32 a b c d) \<longrightarrow>
      decode maxlen (a # b # c # d # rest) = Inl ProtocolError) \<and>
   (maxlen < unat (read_be32 a b c d) \<longrightarrow>
      decode maxlen (a # b # c # d # rest) = Inl ProtocolError)"
  using decode_encode decode_prefix decode_short decode_truncated decode_over_length
  by blast

theorem decode_encode_roundtrip_witness:
  "valid_frame 16 demo_frame \<and>
   encode demo_frame = [0, 0, 0, 3, 0x48, 0x68, 0x69] \<and>
   decode 16 (encode demo_frame @ []) = Inr (demo_frame, []) \<and>
   6 < length (encode demo_frame) \<and>
   decode 16 (take 6 (encode demo_frame)) = Inl ProtocolError \<and>
   decode 16 [0, 0, 3] = Inl ProtocolError \<and>
   decode 16 (0 # 0 # 0 # 3 # [0x48]) = Inl ProtocolError \<and>
   decode 16 (0 # 0 # 1 # 0 # []) = Inl ProtocolError"
  using decode_encode_roundtrip [of 16 demo_frame "[]" 6 "[0, 0, 3]" "[0x48]" 0 0 0 3]
    decode_encode_roundtrip [of 16 demo_frame "[]" 6 "[0, 0, 3]" "[]" 0 0 1 0]
  by (simp add: valid_frame_def demo_frame_def encode_def be32_def read_be32_def Let_def
      drop_bit_eq_div)

end
